theory Spec2Isabelle
  imports Main "HOL-Library.Word"
begin

section \<open>PNG-Utils-JS: the class \<open>png\<close> of png_utils.js\<close>

text \<open>
  The three methods of the class that do algorithmic work are embedded here:
  \<open>parseChunks\<close>, \<open>reverseFiltering\<close> and \<open>subimage\<close>. JavaScript exceptions are
  values of the type \<open>error\<close>, a call is a function into \<open>error + result\<close>.
\<close>

subsection \<open>JavaScript values and array primitives\<close>

datatype error =
    RangeError              \<comment> \<open>a \<open>DataView\<close> read outside the buffer\<close>
  | TypeError               \<comment> \<open>a property read on \<open>undefined\<close>/\<open>null\<close>, \<open>reduce\<close> of an empty array\<close>
  | UnexpectedFilterByte    \<comment> \<open>\<open>new Error("Unexpected filter byte.")\<close>\<close>
  | InvalidTileSize         \<comment> \<open>\<open>new Error(`Invalid tileSize: ...`)\<close>\<close>
  | InvalidMargins          \<comment> \<open>\<open>new Error(`Invalid margins: ...`)\<close>\<close>
  | InvalidSeparation       \<comment> \<open>\<open>new Error(`Invalid separation: ...`)\<close>\<close>
  | InvalidOptions          \<comment> \<open>\<open>new Error(`Invalid options: ...`)\<close>\<close>
  | SubimageError           \<comment> \<open>\<open>new Error(`Error trying to get subimage. ...`)\<close>\<close>

type_synonym byte = "8 word"

text \<open>\<open>xs[i]\<close> for an integer \<open>i\<close>: \<open>None\<close> is \<open>undefined\<close> (index out of range).\<close>

definition arr_get :: "'a list \<Rightarrow> int \<Rightarrow> 'a option" where
  "arr_get xs i = (if 0 \<le> i \<and> i < int (length xs) then Some (xs ! nat i) else None)"

text \<open>
  \<open>Array.prototype.slice(start, end)\<close> on integers: a negative index counts from the
  end, both are clamped to the array, and an empty range gives the empty array.
\<close>

definition js_slice :: "'a list \<Rightarrow> int \<Rightarrow> int \<Rightarrow> 'a list" where
  "js_slice xs start end' =
     (let len = int (length xs);
          k = (if start < 0 then max (len + start) 0 else min start len);
          fin = (if end' < 0 then max (len + end') 0 else min end' len)
      in take (nat (fin - k)) (drop (nat k) xs))"

text \<open>The same on indices that are known to be non-negative.\<close>

definition slice_nat :: "'a list \<Rightarrow> nat \<Rightarrow> nat \<Rightarrow> 'a list" where
  "slice_nat xs start end' = take (end' - start) (drop start xs)"

subsection \<open>\<open>subimage\<close> (png_utils.js, lines 379-424)\<close>

text \<open>
  The argument objects. A field that the object may lack is an \<open>option\<close>, \<open>None\<close> being
  \<open>undefined\<close>. Numbers are integers here: the \<open>typeof ... === 'number'\<close> tests of the
  fields of \<open>tileSize\<close>, of \<open>separation\<close> and of the entries of \<open>ignoredColour\<close> hold by
  typing. The image is an array of arrays of any element type.
\<close>

record tileSize =
  ts_x :: int
  ts_y :: int

record margins =
  m_x :: "int option"
  m_y :: "int option"
  xMargin :: "int option"
  yMargin :: "int option"

record options =
  ignoredColour :: "int list"

text \<open>The default values of the parameter list.\<close>

definition default_margins :: margins where
  "default_margins = \<lparr>m_x = None, m_y = None, xMargin = Some 0, yMargin = Some 0\<rparr>"

definition default_separation :: int where
  "default_separation = 0"

definition default_options :: options where
  "default_options = \<lparr>ignoredColour = [0, 0, 0, 0]\<rparr>"

text \<open>
  \<open>Math.floor((len - margin) / (tile + separation))\<close>, guarded by
  \<open>tile + separation > 0\<close>; \<open>None\<close> is \<open>NaN\<close>, the value when the margin is \<open>undefined\<close>.
\<close>

definition tile_count :: "nat \<Rightarrow> int option \<Rightarrow> int \<Rightarrow> int \<Rightarrow> int option" where
  "tile_count len margin tile separation =
     (if tile + separation > 0
      then (case margin of
              None \<Rightarrow> None
            | Some m \<Rightarrow> Some ((int len - m) div (tile + separation)))
      else Some 0)"

text \<open>
  The innermost loop, \<open>for (let i = yOffset; i < yOffset + tileHeight; i++)\<close>, with the
  number of remaining iterations as the recursion argument. \<open>imageDataBuffer[i]\<close> out of
  range is \<open>undefined\<close>, its \<open>.slice\<close> raises inside the \<open>try\<close> block, and the \<open>catch\<close>
  rethrows.
\<close>

fun tile_rows :: "'a list list \<Rightarrow> int \<Rightarrow> nat \<Rightarrow> int \<Rightarrow> int \<Rightarrow> error + 'a list list" where
  "tile_rows imageDataBuffer i 0 xOffset tileWidth = Inr []"
| "tile_rows imageDataBuffer i (Suc n) xOffset tileWidth =
     (case arr_get imageDataBuffer i of
        None \<Rightarrow> Inl SubimageError
      | Some r \<Rightarrow>
          (case tile_rows imageDataBuffer (i + 1) n xOffset tileWidth of
             Inl e \<Rightarrow> Inl e
           | Inr tile \<Rightarrow> Inr (js_slice r xOffset (xOffset + tileWidth) # tile)))"

text \<open>The loop over \<open>col\<close>: one tile, then \<open>xOffset += tileWidth + separation\<close>.\<close>

fun col_loop ::
  "'a list list \<Rightarrow> nat \<Rightarrow> int \<Rightarrow> int \<Rightarrow> int \<Rightarrow> int \<Rightarrow> int \<Rightarrow> error + 'a list list list" where
  "col_loop imageDataBuffer 0 xOffset yOffset tileWidth tileHeight separation = Inr []"
| "col_loop imageDataBuffer (Suc n) xOffset yOffset tileWidth tileHeight separation =
     (case tile_rows imageDataBuffer yOffset (nat tileHeight) xOffset tileWidth of
        Inl e \<Rightarrow> Inl e
      | Inr tile \<Rightarrow>
          (case col_loop imageDataBuffer n (xOffset + (tileWidth + separation)) yOffset
                  tileWidth tileHeight separation of
             Inl e \<Rightarrow> Inl e
           | Inr tiles \<Rightarrow> Inr (tile # tiles)))"

text \<open>
  The loop over \<open>row\<close>: a row of tiles, then \<open>xOffset = xMargin\<close> and
  \<open>yOffset += tileHeight + separation\<close>.
\<close>

fun row_loop ::
  "'a list list \<Rightarrow> nat \<Rightarrow> nat \<Rightarrow> int \<Rightarrow> int \<Rightarrow> int \<Rightarrow> int \<Rightarrow> int \<Rightarrow> error + 'a list list list" where
  "row_loop imageDataBuffer 0 numCols xMargin' yOffset tileWidth tileHeight separation = Inr []"
| "row_loop imageDataBuffer (Suc n) numCols xMargin' yOffset tileWidth tileHeight separation =
     (case col_loop imageDataBuffer numCols xMargin' yOffset tileWidth tileHeight separation of
        Inl e \<Rightarrow> Inl e
      | Inr tiles \<Rightarrow>
          (case row_loop imageDataBuffer n numCols xMargin' (yOffset + (tileHeight + separation))
                  tileWidth tileHeight separation of
             Inl e \<Rightarrow> Inl e
           | Inr rest \<Rightarrow> Inr (tiles @ rest)))"

text \<open>
  The body of \<open>subimage\<close> up to the end of the \<open>try\<close> block: the parameter checks in
  source order, the two counts and the loops. The value is the local variable
  \<open>tileset\<close> when the block ends. \<open>imageDataBuffer[0].length\<close> raises a \<open>TypeError\<close>
  outside the \<open>try\<close> block when the image has no row. With \<open>NaN\<close> as a count no
  comparison \<open>row < numRows\<close> or \<open>col < numCols\<close> holds and \<open>tileset\<close> stays empty.
\<close>

definition subimage_tileset ::
  "'a list list \<Rightarrow> tileSize \<Rightarrow> margins \<Rightarrow> int \<Rightarrow> options \<Rightarrow> error + 'a list list list" where
  "subimage_tileset imageDataBuffer tileSize margins separation options =
     (if ts_x tileSize \<le> 0 \<or> ts_y tileSize \<le> 0 then Inl InvalidTileSize
      else if m_x margins = None \<or> m_y margins = None then Inl InvalidMargins
      else if separation < 0 then Inl InvalidSeparation
      else if length (ignoredColour options) \<noteq> 4 then Inl InvalidOptions
      else
        (let tileWidth = ts_x tileSize; tileHeight = ts_y tileSize;
             numRows = tile_count (length imageDataBuffer) (yMargin margins) tileHeight separation
         in case imageDataBuffer of
              [] \<Rightarrow> Inl TypeError
            | row0 # _ \<Rightarrow>
                (let numCols = tile_count (length row0) (xMargin margins) tileWidth separation
                 in case (numRows, numCols, xMargin margins, yMargin margins) of
                      (Some nr, Some nc, Some xm, Some ym) \<Rightarrow>
                        row_loop imageDataBuffer (nat nr) (nat nc) xm ym
                          tileWidth tileHeight separation
                    | _ \<Rightarrow> Inr [])))"

text \<open>
  What a call returns: the function body has no \<open>return\<close> statement, so a call that
  does not throw evaluates to \<open>undefined\<close>.
\<close>

datatype 'a returned = Undefined | Value 'a

definition subimage ::
  "'a list list \<Rightarrow> tileSize \<Rightarrow> margins \<Rightarrow> int \<Rightarrow> options \<Rightarrow> error + 'a list list list returned" where
  "subimage imageDataBuffer tileSize margins separation options =
     (case subimage_tileset imageDataBuffer tileSize margins separation options of
        Inl e \<Rightarrow> Inl e
      | Inr tileset \<Rightarrow> Inr Undefined)"

text \<open>A call with trailing arguments left out: each omitted one takes its default.\<close>

definition subimage_call ::
  "'a list list \<Rightarrow> tileSize \<Rightarrow> margins option \<Rightarrow> int option \<Rightarrow> options option
     \<Rightarrow> error + 'a list list list returned" where
  "subimage_call imageDataBuffer tileSize margins separation options =
     subimage imageDataBuffer tileSize
       (case margins of None \<Rightarrow> default_margins | Some m \<Rightarrow> m)
       (case separation of None \<Rightarrow> default_separation | Some s \<Rightarrow> s)
       (case options of None \<Rightarrow> default_options | Some opt \<Rightarrow> opt)"

subsection \<open>\<open>parseChunks\<close> (png_utils.js, lines 58-108)\<close>

text \<open>
  \<open>DataView.getUint32(pos)\<close>: the big-endian value of the four bytes at \<open>pos\<close>, a
  \<open>RangeError\<close> when they do not all lie in the buffer.
\<close>

definition getUint32 :: "byte list \<Rightarrow> nat \<Rightarrow> error + nat" where
  "getUint32 bytes pos =
     (if pos + 4 \<le> length bytes
      then Inr (unat (bytes ! pos) * 2 ^ 24 + unat (bytes ! (pos + 1)) * 2 ^ 16
                + unat (bytes ! (pos + 2)) * 2 ^ 8 + unat (bytes ! (pos + 3)))
      else Inl RangeError)"

text \<open>
  \<open>TextDecoder("utf-8").decode\<close> of the bytes of a chunk type: bytes below 128
  decode to the ASCII characters of the same codes. A sequence with another byte (a
  character of several bytes, a malformed sequence, a byte order mark) is kept as its
  bytes: at most four bytes long, it does not decode to the four letters \<open>"IHDR"\<close>,
  which is all the comparison needs.
\<close>

datatype decoded = Text string | NonAscii "byte list"

definition utf8Decode :: "byte list \<Rightarrow> decoded" where
  "utf8Decode bs =
     (if list_all (\<lambda>b. unat b < 128) bs then Text (map (\<lambda>b. char_of (unat b)) bs)
      else NonAscii bs)"

record chunk_info =
  widthPixels :: nat
  heightPixels :: nat

record chunk =
  fourCC :: decoded
  chunk_size :: nat
  chunk_data :: "byte list"
  offset :: nat
  crc :: nat
  chunkInfo :: "chunk_info option"

text \<open>
  The \<open>while\<close> loop. The chunk of type \<open>IHDR\<close> gets the field \<open>chunkInfo\<close>, read at
  the fixed offsets 16 and 20 of the buffer; every other chunk has none.
\<close>

function parse_loop :: "byte list \<Rightarrow> nat \<Rightarrow> chunk list \<Rightarrow> error + chunk list" where
  "parse_loop bytes pos chunks =
     (if pos < length bytes
      then (case getUint32 bytes pos of
              Inl e \<Rightarrow> Inl e
            | Inr size' \<Rightarrow>
                (case getUint32 bytes (pos + 8 + size') of
                   Inl e \<Rightarrow> Inl e
                 | Inr crc' \<Rightarrow>
                     (if utf8Decode (slice_nat bytes (pos + 4) (pos + 8)) = Text ''IHDR''
                      then (case getUint32 bytes 16 of
                              Inl e \<Rightarrow> Inl e
                            | Inr w \<Rightarrow>
                                (case getUint32 bytes 20 of
                                   Inl e \<Rightarrow> Inl e
                                 | Inr h \<Rightarrow>
                                     parse_loop bytes (pos + 8 + size' + 4)
                                       (chunks @
                                        [\<lparr>fourCC = utf8Decode (slice_nat bytes (pos + 4) (pos + 8)),
                                          chunk_size = size',
                                          chunk_data = slice_nat bytes (pos + 8) (pos + 8 + size'),
                                          offset = pos + 8,
                                          crc = crc',
                                          chunkInfo =
                                            Some \<lparr>widthPixels = w, heightPixels = h\<rparr>\<rparr>])))
                      else parse_loop bytes (pos + 8 + size' + 4)
                             (chunks @
                              [\<lparr>fourCC = utf8Decode (slice_nat bytes (pos + 4) (pos + 8)),
                                chunk_size = size',
                                chunk_data = slice_nat bytes (pos + 8) (pos + 8 + size'),
                                offset = pos + 8,
                                crc = crc',
                                chunkInfo = None\<rparr>]))))
      else Inr chunks)"
  by pat_completeness auto
termination
  by (relation "measure (\<lambda>(bytes, pos, chunks). length bytes - pos)") auto

text \<open>
  \<open>parseChunks\<close> starts after the 8 bytes of the signature. The returned object has the
  single field \<open>chunks\<close>; the model returns that array.
\<close>

definition parseChunks :: "byte list \<Rightarrow> error + chunk list" where
  "parseChunks arrayBuffer = parse_loop arrayBuffer 8 []"

text \<open>
  The state of a \<open>png\<close> object: the field \<open>data\<close>, \<open>null\<close> (\<open>None\<close>) from the
  constructor until the initializer has stored the parsed chunks in it.
\<close>

record png =
  data :: "chunk list option"

subsection \<open>\<open>reverseFiltering\<close> (png_utils.js, lines 192-370)\<close>

text \<open>
  A channel value is a JavaScript number: a natural number or \<open>NaN\<close>. The bytes of
  the input are below 256, every sum formed from them is reduced by 256 once it reaches
  256, so no value is negative. An element of a row of the result is either the filter
  byte of the row (its first element) or a pixel, an array of channel values.
\<close>

datatype jsnum = Num nat | NaN

type_synonym pixel = "jsnum list"

datatype elem = FilterByte nat | Pixel pixel

type_synonym row = "elem list"

text \<open>\<open>u + v\<close> on numbers.\<close>

fun js_add :: "jsnum \<Rightarrow> jsnum \<Rightarrow> jsnum" where
  "js_add (Num m) (Num n) = Num (m + n)"
| "js_add _ _ = NaN"

text \<open>\<open>if (ret >= 256) { ret -= 256 }\<close>; the comparison is false on \<open>NaN\<close>.\<close>

fun wrap256 :: "jsnum \<Rightarrow> jsnum" where
  "wrap256 (Num n) = (if n \<ge> 256 then Num (n - 256) else Num n)"
| "wrap256 NaN = NaN"

text \<open>
  \<open>~~(v / 2)\<close>: the quotient truncated to an integer, 0 for \<open>NaN\<close>. (The sums halved
  here are below \<open>2 ^ 31\<close>, where \<open>~~\<close> does not wrap.)
\<close>

fun halve :: "jsnum \<Rightarrow> jsnum" where
  "halve (Num n) = Num (n div 2)"
| "halve NaN = Num 0"

text \<open>
  \<open>v[c]\<close> for a value \<open>v\<close> read from a row (\<open>None\<close> is \<open>undefined\<close>): a
  \<open>TypeError\<close> on \<open>undefined\<close>; \<open>undefined\<close> on a number or beyond the end of an
  array, which every use adds to a number, giving \<open>NaN\<close>.
\<close>

fun chan :: "elem option \<Rightarrow> nat \<Rightarrow> error + jsnum" where
  "chan None c = Inl TypeError"
| "chan (Some (FilterByte n)) c = Inr NaN"
| "chan (Some (Pixel p)) c = Inr (if c < length p then p ! c else NaN)"

text \<open>\<open>res[l][k]\<close>: a \<open>TypeError\<close> when \<open>res[l]\<close> is \<open>undefined\<close>.\<close>

definition res_get :: "row list \<Rightarrow> int \<Rightarrow> int \<Rightarrow> error + elem option" where
  "res_get res l k = (case arr_get res l of None \<Rightarrow> Inl TypeError | Some r \<Rightarrow> Inr (arr_get r k))"

text \<open>\<open>res[l][k][c]\<close>.\<close>

definition res_chan :: "row list \<Rightarrow> int \<Rightarrow> int \<Rightarrow> nat \<Rightarrow> error + jsnum" where
  "res_chan res l k c = (case res_get res l k of Inl e \<Rightarrow> Inl e | Inr v \<Rightarrow> chan v c)"

text \<open>\<open>res[l].push(v)\<close>.\<close>

definition push :: "row list \<Rightarrow> int \<Rightarrow> elem \<Rightarrow> error + row list" where
  "push res l v =
     (case arr_get res l of None \<Rightarrow> Inl TypeError | Some r \<Rightarrow> Inr (res[nat l := r @ [v]]))"

text \<open>
  \<open>res[l] = r\<close>. The index is never negative nor beyond the end of \<open>res\<close> when the
  assignment runs: \<open>lineNum\<close> starts at -1 and goes up by one at each start of a line,
  the first iteration being one, and the row of the line is stored in that iteration.
\<close>

definition arr_set :: "'a list \<Rightarrow> int \<Rightarrow> 'a \<Rightarrow> 'a list" where
  "arr_set xs l r =
     (if 0 \<le> l \<and> l < int (length xs) then xs[nat l := r]
      else if l = int (length xs) then xs @ [r]
      else xs)"

text \<open>
  \<open>curPixel.map(f)\<close> for a callback that counts the channels in \<open>c\<close> and may throw:
  the callback runs once per element, in order, and the first exception ends the call.
\<close>

fun map_chan :: "(nat \<Rightarrow> jsnum \<Rightarrow> error + jsnum) \<Rightarrow> nat \<Rightarrow> pixel \<Rightarrow> error + pixel" where
  "map_chan f c [] = Inr []"
| "map_chan f c (x # xs) =
     (case f c x of
        Inl e \<Rightarrow> Inl e
      | Inr y \<Rightarrow> (case map_chan f (Suc c) xs of Inl e \<Rightarrow> Inl e | Inr ys \<Rightarrow> Inr (y # ys)))"

text \<open>The local variables of \<open>reverseFiltering\<close> that the loop changes, \<open>i\<close> apart.\<close>

record rf_state =
  filterByte :: nat
  res :: "row list"
  lineNum :: int
  tempArr :: "elem option"
  pixelCount :: nat

text \<open>
  The state before the loop: \<open>res = [[]]\<close>, \<open>lineNum = -1\<close>, \<open>pixelCount = 0\<close>.
  \<open>filterByte\<close> and \<open>tempArr\<close> are declared without a value; the first iteration
  (\<open>i === 0\<close>) assigns both before any read, so the 0 given to \<open>filterByte\<close> here is
  never seen.
\<close>

definition rf_init :: rf_state where
  "rf_init = \<lparr>filterByte = 0, res = [[]], lineNum = -1, tempArr = None, pixelCount = 0\<rparr>"

text \<open>
  Lines 206-216, run with \<open>i < arrayBuffer.length\<close>. The start of a line reads the
  filter byte and steps \<open>i\<close> over it; \<open>rf_next_i\<close> is the value of \<open>i\<close> afterwards.
  Where the row of the line is still missing or empty, it is created with the filter
  byte as its first element.
\<close>

definition rf_next_i :: "nat \<Rightarrow> nat \<Rightarrow> nat" where
  "rf_next_i widthBytes i = (if i mod widthBytes = 0 \<or> i = 0 then i + 1 else i)"

definition rf_line :: "nat \<Rightarrow> nat list \<Rightarrow> nat \<Rightarrow> rf_state \<Rightarrow> rf_state" where
  "rf_line widthBytes arrayBuffer i st =
     (let st1 =
            (if i mod widthBytes = 0 \<or> i = 0
             then st\<lparr>tempArr := Some (Pixel (map Num (slice_nat arrayBuffer i (i + 4)))),
                     filterByte := arrayBuffer ! i,
                     pixelCount := 0,
                     lineNum := lineNum st + 1\<rparr>
             else st);
          i1 = rf_next_i widthBytes i
      in (case arr_get (res st1) (lineNum st1) of
            Some (_ # _) \<Rightarrow> st1
          | _ \<Rightarrow> st1\<lparr>res := arr_set (res st1) (lineNum st1) [FilterByte (filterByte st1)],
                       tempArr := Some (Pixel (map Num (slice_nat arrayBuffer i1 (i1 + 4))))\<rparr>))"

text \<open>Filter type 0: the pixel is pushed as it is.\<close>

definition rf_none :: "pixel \<Rightarrow> rf_state \<Rightarrow> error + rf_state" where
  "rf_none curPixel st =
     (case push (res st) (lineNum st) (Pixel curPixel) of
        Inl e \<Rightarrow> Inl e
      | Inr r \<Rightarrow> Inr (st\<lparr>res := r\<rparr>))"

text \<open>Filter type 1 (lines 225-242).\<close>

definition rf_sub :: "nat \<Rightarrow> nat \<Rightarrow> pixel \<Rightarrow> rf_state \<Rightarrow> error + rf_state" where
  "rf_sub widthBytes i curPixel st =
     (if int i > int widthBytes * lineNum st + 3
      then (case map_chan (\<lambda>c x. case chan (tempArr st) c of
                                     Inl e \<Rightarrow> Inl e
                                   | Inr t \<Rightarrow> Inr (wrap256 (js_add x t))) 0 curPixel of
              Inl e \<Rightarrow> Inl e
            | Inr p \<Rightarrow>
                (case push (res st) (lineNum st) (Pixel p) of
                   Inl e \<Rightarrow> Inl e
                 | Inr r \<Rightarrow>
                     (case res_get r (lineNum st) (int (pixelCount st) + 1) of
                        Inl e \<Rightarrow> Inl e
                      | Inr t \<Rightarrow> Inr (st\<lparr>res := r, tempArr := t\<rparr>))))
      else (case push (res st) (lineNum st) (Pixel curPixel) of
              Inl e \<Rightarrow> Inl e
            | Inr r \<Rightarrow> Inr (st\<lparr>res := r, tempArr := Some (Pixel curPixel)\<rparr>)))"

text \<open>Filter type 2 (lines 244-259).\<close>

definition rf_up :: "pixel \<Rightarrow> rf_state \<Rightarrow> error + rf_state" where
  "rf_up curPixel st =
     (if lineNum st > 0
      then (case map_chan (\<lambda>c x. case res_chan (res st) (lineNum st - 1)
                                          (int (pixelCount st) + 1) c of
                                     Inl e \<Rightarrow> Inl e
                                   | Inr u \<Rightarrow> Inr (wrap256 (js_add x u))) 0 curPixel of
              Inl e \<Rightarrow> Inl e
            | Inr p \<Rightarrow>
                (case push (res st) (lineNum st) (Pixel p) of
                   Inl e \<Rightarrow> Inl e
                 | Inr r \<Rightarrow> Inr (st\<lparr>res := r\<rparr>)))
      else (case push (res st) (lineNum st) (Pixel curPixel) of
              Inl e \<Rightarrow> Inl e
            | Inr r \<Rightarrow> Inr (st\<lparr>res := r, tempArr := Some (Pixel curPixel)\<rparr>)))"

text \<open>
  \<open>tmp[c] + res[lineNum - 1][pixelCount + 1]\<close> of line 288, where \<open>tmp[c]\<close> is 0 and
  the second operand is a whole element of the row above, not one of its channels.
  A number plus an array is the concatenation of their string forms, \<open>"0"\<close> followed
  by the entries joined with commas, and the division by 2 reads that string as a
  number: \<open>NaN\<close> as soon as there is a comma, that is for every array of two or more
  entries.
\<close>

fun zero_plus :: "elem option \<Rightarrow> jsnum" where
  "zero_plus None = NaN"
| "zero_plus (Some (FilterByte n)) = Num n"
| "zero_plus (Some (Pixel [])) = Num 0"
| "zero_plus (Some (Pixel [v])) = v"
| "zero_plus (Some (Pixel (v # w # p))) = NaN"

text \<open>
  Filter type 3 (lines 261-309). Away from the first line and the first pixel of a
  line, the pixel is \<open>x + ~~((left + above) / 2)\<close> with both read at index
  \<open>pixelCount + 1\<close>. Otherwise one of three branches pushes a pixel, and then line
  307 pushes \<open>curPixel\<close> itself as one more element of the row.
\<close>

definition rf_average :: "nat \<Rightarrow> nat \<Rightarrow> pixel \<Rightarrow> rf_state \<Rightarrow> error + rf_state" where
  "rf_average widthBytes i curPixel st =
     (if lineNum st > 0 \<and> int i > int widthBytes * lineNum st + 3
      then (case map_chan
                   (\<lambda>c x. case res_chan (res st) (lineNum st) (int (pixelCount st) + 1) c of
                             Inl e \<Rightarrow> Inl e
                           | Inr l \<Rightarrow>
                               (case res_chan (res st) (lineNum st - 1)
                                       (int (pixelCount st) + 1) c of
                                  Inl e \<Rightarrow> Inl e
                                | Inr u \<Rightarrow> Inr (wrap256 (js_add x (halve (js_add l u))))))
                   0 curPixel of
              Inl e \<Rightarrow> Inl e
            | Inr p \<Rightarrow>
                (case push (res st) (lineNum st) (Pixel p) of
                   Inl e \<Rightarrow> Inl e
                 | Inr r \<Rightarrow> Inr (st\<lparr>res := r\<rparr>)))
      else (case (if \<not> lineNum st > 0
                  then map_chan
                         (\<lambda>c x. case res_chan (res st) (lineNum st)
                                        (int (pixelCount st) + 1) c of
                                   Inl e \<Rightarrow> Inl e
                                 | Inr l \<Rightarrow> Inr (wrap256 (js_add x (halve (js_add l (Num 0))))))
                         0 curPixel
                  else if \<not> int i > int widthBytes * lineNum st + 3
                  then (case res_get (res st) (lineNum st - 1) (int (pixelCount st) + 1) of
                          Inl e \<Rightarrow> if curPixel = [] then Inr [] else Inl e
                        | Inr up \<Rightarrow>
                            Inr (map (\<lambda>x. wrap256 (js_add x (halve (zero_plus up))))
                                   curPixel))
                  else Inr (map (\<lambda>x. wrap256 (js_add x (halve (js_add (Num 0) (Num 0)))))
                              curPixel)) of
              Inl e \<Rightarrow> Inl e
            | Inr p \<Rightarrow>
                (case push (res st) (lineNum st) (Pixel p) of
                   Inl e \<Rightarrow> Inl e
                 | Inr r \<Rightarrow>
                     (case push r (lineNum st) (Pixel curPixel) of
                        Inl e \<Rightarrow> Inl e
                      | Inr r' \<Rightarrow> Inr (st\<lparr>res := r', tempArr := Some (Pixel curPixel)\<rparr>)))))"

text \<open>
  \<open>v.reduce((acc, curr) => acc + curr)\<close>, the sum of the channels of \<open>v\<close>: a
  \<open>TypeError\<close> when \<open>v\<close> is \<open>undefined\<close>, a number or the empty array.
\<close>

fun reduce_sum :: "elem option \<Rightarrow> error + jsnum" where
  "reduce_sum (Some (Pixel (v # p))) = Inr (foldl js_add v p)"
| "reduce_sum _ = Inl TypeError"

text \<open>\<open>u - v\<close>, \<open>Math.abs\<close> and \<open>u <= v\<close> on numbers that may be negative; \<open>None\<close> is \<open>NaN\<close>.\<close>

fun as_int :: "jsnum \<Rightarrow> int option" where
  "as_int (Num n) = Some (int n)"
| "as_int NaN = None"

fun js_plus :: "int option \<Rightarrow> int option \<Rightarrow> int option" where
  "js_plus (Some m) (Some n) = Some (m + n)"
| "js_plus _ _ = None"

fun js_minus :: "int option \<Rightarrow> int option \<Rightarrow> int option" where
  "js_minus (Some m) (Some n) = Some (m - n)"
| "js_minus _ _ = None"

fun js_abs :: "int option \<Rightarrow> int option" where
  "js_abs (Some m) = Some \<bar>m\<bar>"
| "js_abs None = None"

fun js_le :: "int option \<Rightarrow> int option \<Rightarrow> bool" where
  "js_le (Some m) (Some n) = (m \<le> n)"
| "js_le _ _ = False"

text \<open>\<open>v[j]\<close> for an array \<open>v\<close>, as an operand of \<open>+\<close>.\<close>

definition entry :: "pixel \<Rightarrow> nat \<Rightarrow> jsnum" where
  "entry v j = (if j < length v then v ! j else NaN)"

text \<open>The loop \<open>for (let j = 0; j < 4; j++)\<close> of lines 342-358 for the chosen neighbour.\<close>

definition add_neighbour :: "elem option \<Rightarrow> pixel \<Rightarrow> pixel" where
  "add_neighbour v curPixel =
     map (\<lambda>j. wrap256 (js_add (case v of Some (Pixel p) \<Rightarrow> entry p j | _ \<Rightarrow> NaN)
                               (entry curPixel j))) [0 ..< 4]"

definition zeros :: "elem option" where
  "zeros = Some (Pixel [Num 0, Num 0, Num 0, Num 0])"

text \<open>
  Filter type 4 (lines 311-363). The three neighbours are whole pixels; the predictor
  and the three distances are computed once per pixel, from the sums of the four
  channels of each neighbour, and the neighbour chosen is added channel by channel.
\<close>

definition rf_paeth :: "pixel \<Rightarrow> rf_state \<Rightarrow> error + rf_state" where
  "rf_paeth curPixel st =
     (case (if lineNum st > 0 \<and> pixelCount st \<noteq> 0
            then (case res_get (res st) (lineNum st) (int (pixelCount st)) of
                    Inl e \<Rightarrow> Inl e
                  | Inr a \<Rightarrow>
                      (case res_get (res st) (lineNum st - 1) (int (pixelCount st) + 1) of
                         Inl e \<Rightarrow> Inl e
                       | Inr b \<Rightarrow>
                           (case res_get (res st) (lineNum st - 1) (int (pixelCount st)) of
                              Inl e \<Rightarrow> Inl e
                            | Inr c \<Rightarrow> Inr (a, b, c))))
            else if pixelCount st = 0 \<and> lineNum st > 0
            then (case res_get (res st) (lineNum st - 1) (int (pixelCount st) + 1) of
                    Inl e \<Rightarrow> Inl e
                  | Inr b \<Rightarrow> Inr (zeros, b, zeros))
            else if pixelCount st \<noteq> 0 \<and> \<not> lineNum st > 0
            then (case res_get (res st) (lineNum st) (int (pixelCount st)) of
                    Inl e \<Rightarrow> Inl e
                  | Inr a \<Rightarrow> Inr (a, zeros, zeros))
            else Inr (zeros, zeros, zeros)) of
        Inl e \<Rightarrow> Inl e
      | Inr (a, b, c) \<Rightarrow>
          (case reduce_sum a of
             Inl e \<Rightarrow> Inl e
           | Inr sa \<Rightarrow>
               (case reduce_sum b of
                  Inl e \<Rightarrow> Inl e
                | Inr sb \<Rightarrow>
                    (case reduce_sum c of
                       Inl e \<Rightarrow> Inl e
                     | Inr sc \<Rightarrow>
                         (let p = js_minus (js_plus (as_int sa) (as_int sb)) (as_int sc);
                              pa = js_abs (js_minus p (as_int sa));
                              pb = js_abs (js_minus p (as_int sb));
                              pc = js_abs (js_minus p (as_int sc));
                              ret = (if js_le pa pb \<and> js_le pa pc then add_neighbour a curPixel
                                     else if js_le pb pc then add_neighbour b curPixel
                                     else add_neighbour c curPixel)
                          in case push (res st) (lineNum st) (Pixel ret) of
                               Inl e \<Rightarrow> Inl e
                             | Inr r \<Rightarrow> Inr (st\<lparr>res := r\<rparr>))))))"

text \<open>The \<open>switch\<close> on the filter byte.\<close>

definition rf_switch :: "nat \<Rightarrow> nat \<Rightarrow> pixel \<Rightarrow> rf_state \<Rightarrow> error + rf_state" where
  "rf_switch widthBytes i curPixel st =
     (if filterByte st = 0 then rf_none curPixel st
      else if filterByte st = 1 then rf_sub widthBytes i curPixel st
      else if filterByte st = 2 then rf_up curPixel st
      else if filterByte st = 3 then rf_average widthBytes i curPixel st
      else if filterByte st = 4 then rf_paeth curPixel st
      else Inl UnexpectedFilterByte)"

text \<open>
  The \<open>for\<close> loop over \<open>i\<close>, in steps of 4 after the body (which has stepped over the
  filter byte at the start of a line), and the \<open>return res\<close> after it.
\<close>

function rf_loop :: "nat \<Rightarrow> nat list \<Rightarrow> nat \<Rightarrow> rf_state \<Rightarrow> error + row list" where
  "rf_loop widthBytes arrayBuffer i st =
     (if i < length arrayBuffer
      then (case rf_switch widthBytes (rf_next_i widthBytes i)
                   (map Num (slice_nat arrayBuffer (rf_next_i widthBytes i)
                                               (rf_next_i widthBytes i + 4)))
                   (rf_line widthBytes arrayBuffer i st) of
              Inl e \<Rightarrow> Inl e
            | Inr st' \<Rightarrow>
                rf_loop widthBytes arrayBuffer (rf_next_i widthBytes i + 4)
                  (st'\<lparr>pixelCount := pixelCount st' + 1\<rparr>))
      else Inr (res st))"
  by pat_completeness auto
termination
  by (relation "measure (\<lambda>(widthBytes, arrayBuffer, i, st). length arrayBuffer - i)")
     (auto simp: rf_next_i_def)

text \<open>
  \<open>reverseFiltering\<close>: the argument is the decompressed stream, a \<open>Uint8Array\<close> that
  \<open>Array.from\<close> turns into an array of numbers. The width is not a parameter: it is
  read from \<open>this.data[0].chunkInfo\<close>, and the destructuring raises a \<open>TypeError\<close>
  when \<open>data\<close> is \<open>null\<close> or empty or its first chunk has no \<open>chunkInfo\<close>.
\<close>

definition reverseFiltering :: "png \<Rightarrow> byte list \<Rightarrow> error + row list" where
  "reverseFiltering this arrayBuffer =
     (case data this of
        None \<Rightarrow> Inl TypeError
      | Some [] \<Rightarrow> Inl TypeError
      | Some (c0 # _) \<Rightarrow>
          (case chunkInfo c0 of
             None \<Rightarrow> Inl TypeError
           | Some info \<Rightarrow>
               rf_loop (widthPixels info * 4 + 1) (map unat arrayBuffer) 0 rf_init))"

subsection \<open>Example objects and the per-channel filters of the specification\<close>

text \<open>The four bytes of a big-endian 32-bit value.\<close>

definition be32 :: "nat \<Rightarrow> byte list" where
  "be32 n = [of_nat (n div 2 ^ 24), of_nat (n div 2 ^ 16), of_nat (n div 2 ^ 8), of_nat n]"

text \<open>
  The chunk that \<open>parseChunks\<close> stores for the header of an 8-bit RGBA image of the
  given size when the header is the first chunk of the file (the CRC is left 0), and
  an object whose \<open>data\<close> is that chunk alone.
\<close>

definition ihdr_chunk :: "nat \<Rightarrow> nat \<Rightarrow> chunk" where
  "ihdr_chunk w h =
     \<lparr>fourCC = Text ''IHDR'', chunk_size = 13, chunk_data = be32 w @ be32 h @ [8, 6, 0, 0, 0],
      offset = 16, crc = 0, chunkInfo = Some \<lparr>widthPixels = w, heightPixels = h\<rparr>\<rparr>"

definition png_of :: "nat \<Rightarrow> nat \<Rightarrow> png" where
  "png_of w h = \<lparr>data = Some [ihdr_chunk w h]\<rparr>"

text \<open>
  The reconstruction of one byte as the specification words it for filter types 3
  and 4: \<open>x\<close> is the filtered byte, \<open>a\<close>, \<open>b\<close> and \<open>c\<close> are the reconstructed
  bytes of the same channel to the left, above and above-left.
\<close>

definition spec_average :: "nat \<Rightarrow> nat \<Rightarrow> nat \<Rightarrow> nat" where
  "spec_average x a b = (x + (a + b) div 2) mod 256"

definition spec_paeth :: "nat \<Rightarrow> nat \<Rightarrow> nat \<Rightarrow> nat \<Rightarrow> nat" where
  "spec_paeth x a b c =
     (let p = int a + int b - int c;
          pa = \<bar>p - int a\<bar>; pb = \<bar>p - int b\<bar>; pc = \<bar>p - int c\<bar>;
          chosen = (if pa \<le> pb \<and> pa \<le> pc then a else if pb \<le> pc then b else c)
      in (x + chosen) mod 256)"

subsection \<open>Describing inputs and outputs\<close>

text \<open>
  The bytes of an ASCII string, the value of four bytes read big-endian, and the
  bytes of one chunk of a file: length, type, payload, CRC.
\<close>

definition ascii :: "string \<Rightarrow> byte list" where
  "ascii s = map (\<lambda>c. of_nat (of_char c)) s"

definition uint32_of :: "byte list \<Rightarrow> nat" where
  "uint32_of bs =
     unat (bs ! 0) * 2 ^ 24 + unat (bs ! 1) * 2 ^ 16 + unat (bs ! 2) * 2 ^ 8 + unat (bs ! 3)"

definition chunk_bytes :: "string \<Rightarrow> byte list \<Rightarrow> byte list \<Rightarrow> byte list" where
  "chunk_bytes ty payload crcb = be32 (length payload) @ ascii ty @ payload @ crcb"

text \<open>
  The chunks of a file in which a text chunk precedes the header (see
  \<open>parseChunks_text_first\<close> below): the first chunk has no \<open>chunkInfo\<close>.
\<close>

definition text_first_chunks :: "chunk list" where
  "text_first_chunks =
     [\<lparr>fourCC = Text ''tEXt'', chunk_size = 0, chunk_data = [], offset = 16, crc = 1,
        chunkInfo = None\<rparr>,
      \<lparr>fourCC = Text ''IHDR'', chunk_size = 13,
        chunk_data = [0, 0, 0, 1, 0, 0, 0, 2, 8, 6, 0, 0, 0], offset = 28, crc = 151587081,
        chunkInfo = Some \<lparr>widthPixels = 1, heightPixels = 13\<rparr>\<rparr>]"

text \<open>
  A list cut into consecutive pieces of \<open>n\<close> elements, the last one shorter when the
  length is not a multiple of \<open>n\<close>.
\<close>

function pieces :: "nat \<Rightarrow> 'a list \<Rightarrow> 'a list list" where
  "pieces n xs = (if n = 0 \<or> xs = [] then [] else take n xs # pieces n (drop n xs))"
  by pat_completeness auto
termination
  by (relation "measure (\<lambda>(n, xs). length xs)") auto

text \<open>
  The rows that a stream stands for when none of its lines is filtered, whatever its
  length: the stream is cut into lines of \<open>widthBytes\<close> bytes, each line gives a row
  made of its first byte and of its remaining bytes in pixels of 4. The last line and
  its last pixel are shorter when the stream ends early; a line that is only its
  first byte has one empty pixel; the empty stream gives one empty row.
\<close>

definition plain_pixel :: "nat list \<Rightarrow> elem" where
  "plain_pixel bs = Pixel (map Num bs)"

fun plain_row :: "nat list \<Rightarrow> row" where
  "plain_row [] = []"
| "plain_row (b # bs) =
     FilterByte b # (if bs = [] then [plain_pixel []] else map plain_pixel (pieces 4 bs))"

definition plain_rows :: "nat \<Rightarrow> nat list \<Rightarrow> row list" where
  "plain_rows widthBytes arr =
     (if arr = [] then [[]] else map plain_row (pieces widthBytes arr))"

text \<open>
  The filtered stream of an image, given as rows of pixels of 4 bytes, when every
  line has filter type 0.
\<close>

definition unfiltered_line :: "byte list list \<Rightarrow> byte list" where
  "unfiltered_line line = 0 # concat line"

definition unfiltered_stream :: "byte list list list \<Rightarrow> byte list" where
  "unfiltered_stream pixelRows = concat (map unfiltered_line pixelRows)"

section \<open>The claims\<close>

declare parse_loop.simps [simp del]

declare rf_loop.simps [simp del]

declare pieces.simps [simp del]

lemma rf_png_of:
  "reverseFiltering (png_of w h) bs = rf_loop (w * 4 + 1) (map unat bs) 0 rf_init"
  by (simp add: reverseFiltering_def png_of_def ihdr_chunk_def)

subsection \<open>Tile extraction\<close>

lemma subimage_never_returns_tiles:
  "subimage imageDataBuffer tileSize margins separation options \<noteq> Inr (Value tiles)"
  by (simp add: subimage_def split: sum.splits)

text \<open>
  C1. The claim: \<open>extractTiles\<close> returns the list of tiles, \<open>numRows * numCols\<close> of
  them in row-major order. The code builds that list in the local \<open>tileset\<close> and
  returns nothing: on a 2 by 2 image cut into tiles of one pixel, with both spellings
  of the margins given as 0, \<open>tileset\<close> holds the four tiles in row-major order and the
  call evaluates to \<open>undefined\<close>. With the margins given as \<open>{x: 0, y: 0}\<close> alone,
  \<open>xMargin\<close> and \<open>yMargin\<close> are \<open>undefined\<close>, both counts are \<open>NaN\<close> and not even
  \<open>tileset\<close> receives a tile.
\<close>

theorem subimage_returns_undefined:
  "subimage_tileset [[[1, 1, 1, 255], [2, 2, 2, 255]], [[3, 3, 3, 255], [4, 4, 4, 255 :: nat]]]
      \<lparr>ts_x = 1, ts_y = 1\<rparr>
      \<lparr>m_x = Some 0, m_y = Some 0, xMargin = Some 0, yMargin = Some 0\<rparr> 0
      \<lparr>ignoredColour = [0, 0, 0, 0]\<rparr>
     = Inr [[[[1, 1, 1, 255]]], [[[2, 2, 2, 255]]], [[[3, 3, 3, 255]]], [[[4, 4, 4, 255]]]]
   \<and> subimage [[[1, 1, 1, 255], [2, 2, 2, 255]], [[3, 3, 3, 255], [4, 4, 4, 255 :: nat]]]
      \<lparr>ts_x = 1, ts_y = 1\<rparr>
      \<lparr>m_x = Some 0, m_y = Some 0, xMargin = Some 0, yMargin = Some 0\<rparr> 0
      \<lparr>ignoredColour = [0, 0, 0, 0]\<rparr>
     = Inr Undefined
   \<and> subimage_tileset [[[1, 1, 1, 255], [2, 2, 2, 255]], [[3, 3, 3, 255], [4, 4, 4, 255 :: nat]]]
      \<lparr>ts_x = 1, ts_y = 1\<rparr>
      \<lparr>m_x = Some 0, m_y = Some 0, xMargin = None, yMargin = None\<rparr> 0
      \<lparr>ignoredColour = [0, 0, 0, 0]\<rparr>
     = Inr []"
  by (simp add: subimage_def subimage_tileset_def tile_count_def arr_get_def js_slice_def
        eval_nat_numeral)

text \<open>
  C3. The claim: a pixel equal to \<open>ignoredColour\<close> is replaced by \<open>(0,0,0,0)\<close> in
  the tile. The code checks the shape of \<open>ignoredColour\<close> and never compares a pixel
  with it: the pixel \<open>(9,9,9,255)\<close>, given as the ignored colour, is copied into
  the tile unchanged.
\<close>

theorem subimage_copies_ignoredColour:
  "subimage_tileset [[[9, 9, 9, 255], [2, 2, 2, 255 :: nat]]]
      \<lparr>ts_x = 2, ts_y = 1\<rparr>
      \<lparr>m_x = Some 0, m_y = Some 0, xMargin = Some 0, yMargin = Some 0\<rparr> 0
      \<lparr>ignoredColour = [9, 9, 9, 255]\<rparr>
     = Inr [[[[9, 9, 9, 255], [2, 2, 2, 255]]]]"
  by (simp add: subimage_tileset_def tile_count_def arr_get_def js_slice_def eval_nat_numeral)

text \<open>
  C4. The claim: a call that omits margins, separation and ignored colour passes the
  parameter checks and behaves as the call with margins \<open>{x: 0, y: 0}\<close>, separation 0
  and ignored colour \<open>(0,0,0,0)\<close>. The default margins are \<open>{xMargin: 0, yMargin: 0}\<close>
  and the check reads \<open>margins.x\<close> and \<open>margins.y\<close>: the call with the defaults
  throws, the call with the three values written out does not.
\<close>

theorem subimage_default_margins_rejected:
  "subimage_call [[[1, 1, 1, 255 :: nat]]] \<lparr>ts_x = 1, ts_y = 1\<rparr> None None None
     = Inl InvalidMargins
   \<and> subimage_call [[[1, 1, 1, 255 :: nat]]] \<lparr>ts_x = 1, ts_y = 1\<rparr>
        (Some \<lparr>m_x = Some 0, m_y = Some 0, xMargin = None, yMargin = None\<rparr>) (Some 0)
        (Some \<lparr>ignoredColour = [0, 0, 0, 0]\<rparr>)
     = Inr Undefined"
  by (simp add: subimage_call_def subimage_def subimage_tileset_def default_margins_def
        default_separation_def default_options_def tile_count_def)

subsection \<open>Scanline reconstruction on concrete streams\<close>

text \<open>
  C2. The claim: filter type 4 works on each channel by itself. The code forms the
  predictor and the distances from the sums of the channels. Width 2, first line
  unfiltered with pixels \<open>(0,0,0,0)\<close> and \<open>(0,10,0,0)\<close>, second line of type 4 with
  bytes \<open>(10,0,0,0)\<close> and \<open>(0,0,0,0)\<close>: for the last pixel the left neighbour is
  \<open>(10,0,0,0)\<close>, the one above \<open>(0,10,0,0)\<close>, above-left \<open>(0,0,0,0)\<close>. The sums tie
  and the code adds the left neighbour in all four channels, so its second channel
  is 0, where the per-channel predictor (a = 0, b = 10, c = 0) gives 10.
\<close>

theorem paeth_sums_channels:
  "reverseFiltering (png_of 2 2) [0, 0, 0, 0, 0, 0, 10, 0, 0, 4, 10, 0, 0, 0, 0, 0, 0, 0]
     = Inr [[FilterByte 0, Pixel [Num 0, Num 0, Num 0, Num 0], Pixel [Num 0, Num 10, Num 0, Num 0]],
            [FilterByte 4, Pixel [Num 10, Num 0, Num 0, Num 0], Pixel [Num 10, Num 0, Num 0, Num 0]]]
   \<and> spec_paeth 0 0 10 0 = 10"
  by (simp only: rf_png_of, code_simp)

text \<open>
  C5. The claim: filter type 3 gives \<open>(x + floor((a + b) / 2)) mod 256\<close> per channel,
  one pixel of the row per pixel of the scanline. Width 1, first line unfiltered with
  the pixel \<open>(10,20,30,40)\<close>, second line of type 3 with bytes \<open>(1,2,3,4)\<close>: the code
  leaves the bytes as they are, without the half of the pixel above, and puts the
  pixel into the row twice; the first channel should be \<open>1 + 10 div 2 = 6\<close>. A line of
  type 3 that is the first line of the image makes the code throw.
\<close>

theorem average_first_pixel_and_first_line:
  "reverseFiltering (png_of 1 2) [0, 10, 20, 30, 40, 3, 1, 2, 3, 4]
     = Inr [[FilterByte 0, Pixel [Num 10, Num 20, Num 30, Num 40]],
            [FilterByte 3, Pixel [Num 1, Num 2, Num 3, Num 4], Pixel [Num 1, Num 2, Num 3, Num 4]]]
   \<and> spec_average 1 0 10 = 6
   \<and> reverseFiltering (png_of 1 1) [3, 1, 2, 3, 4] = Inl TypeError
   \<and> spec_average 1 0 0 = 1"
  by (simp only: rf_png_of, code_simp)

text \<open>
  C8. The claim: a stream with a filter byte outside 0..4 fails with the error for
  an unsupported filter. Width 1, a first line of type 3 and a second line with
  filter byte 5: the code throws the \<open>TypeError\<close> of the first line (see C5) and
  never reads the byte 5. With an unfiltered first line the same second line gives
  the error for the filter byte.
\<close>

theorem unexpected_filter_byte_preempted:
  "reverseFiltering (png_of 1 2) [3, 1, 2, 3, 4, 5, 0, 0, 0, 0] = Inl TypeError
   \<and> reverseFiltering (png_of 1 2) [0, 1, 2, 3, 4, 5, 0, 0, 0, 0] = Inl UnexpectedFilterByte"
  by (simp only: rf_png_of, code_simp)

subsection \<open>Chunk parsing\<close>

lemma split32:
  fixes n :: nat
  assumes "n < 2 ^ 32"
  shows "(n div 2 ^ 24 mod 256) * 2 ^ 24 + (n div 2 ^ 16 mod 256) * 2 ^ 16 + (n div 2 ^ 8 mod 256) * 2 ^ 8 + n mod 256 = n"
proof -
  define q3 q2 q1 where "q3 = n div 2 ^ 24" and "q2 = n div 2 ^ 16" and "q1 = n div 2 ^ 8"
  define r2 r1 r0 where "r2 = q2 mod 256" and "r1 = q1 mod 256" and "r0 = n mod 256"
  have a: "q3 mod 256 = q3"
    using assms by (simp add: q3_def less_mult_imp_div_less)
  have "q3 = q2 div 256" "q2 = q1 div 256" "q1 = n div 256"
    by (simp_all add: q3_def q2_def q1_def div_mult2_eq)
  then have "q2 = q3 * 256 + r2" "q1 = q2 * 256 + r1" "n = q1 * 256 + r0"
    by (simp_all add: r2_def r1_def r0_def)
  then have "n = ((q3 * 256 + r2) * 256 + r1) * 256 + r0"
    by simp
  then have "q3 * 2 ^ 24 + r2 * 2 ^ 16 + r1 * 2 ^ 8 + r0 = n"
    by (simp add: algebra_simps)
  then show ?thesis
    unfolding r2_def r1_def r0_def using a by (simp add: q3_def q2_def q1_def)
qed

lemma uint32_of_be32: "n < 2 ^ 32 \<Longrightarrow> uint32_of (be32 n) = n"
  using split32 [of n] by (simp add: uint32_of_def be32_def unat_of_nat)


lemma length_be32: "length (be32 n) = 4"
  by (simp add: be32_def)

lemma getUint32_mid:
  "length bs = 4 \<Longrightarrow> length pre = p \<Longrightarrow> getUint32 (pre @ bs @ post) p = Inr (uint32_of bs)"
  by (auto simp add: getUint32_def uint32_of_def nth_append)

lemma slice_mid:
  "length pre = p \<Longrightarrow> q = p + length bs \<Longrightarrow> slice_nat (pre @ bs @ post) p q = bs"
  by (simp add: slice_nat_def)

lemma parse_loop_chunk:
  assumes pre: "length pre = pos" and ty: "length ty = 4" and len: "length payload < 2 ^ 32"
    and crcb: "length crcb = 4"
  shows "parse_loop (pre @ be32 (length payload) @ ty @ payload @ crcb @ post) pos cs =
     (if utf8Decode ty = Text ''IHDR''
      then (case getUint32 (pre @ be32 (length payload) @ ty @ payload @ crcb @ post) 16 of
              Inl e \<Rightarrow> Inl e
            | Inr w \<Rightarrow>
               (case getUint32 (pre @ be32 (length payload) @ ty @ payload @ crcb @ post) 20 of
                  Inl e \<Rightarrow> Inl e
                | Inr h \<Rightarrow>
                    parse_loop (pre @ be32 (length payload) @ ty @ payload @ crcb @ post)
                      (pos + 12 + length payload)
                      (cs @ [\<lparr>fourCC = utf8Decode ty, chunk_size = length payload,
                               chunk_data = payload, offset = pos + 8, crc = uint32_of crcb,
                               chunkInfo = Some \<lparr>widthPixels = w, heightPixels = h\<rparr>\<rparr>])))
      else parse_loop (pre @ be32 (length payload) @ ty @ payload @ crcb @ post)
             (pos + 12 + length payload)
             (cs @ [\<lparr>fourCC = utf8Decode ty, chunk_size = length payload,
                      chunk_data = payload, offset = pos + 8, crc = uint32_of crcb,
                      chunkInfo = None\<rparr>]))"
proof -
  let ?buf = "pre @ be32 (length payload) @ ty @ payload @ crcb @ post"
  have 1: "pos < length ?buf"
    using pre by (simp add: length_be32)
  have 2: "getUint32 ?buf pos = Inr (length payload)"
    using getUint32_mid [of "be32 (length payload)" pre pos] pre len
    by (simp add: length_be32 uint32_of_be32)
  have 3: "getUint32 ?buf (pos + 8 + length payload) = Inr (uint32_of crcb)"
    using getUint32_mid [of crcb "pre @ be32 (length payload) @ ty @ payload"
                           "pos + 8 + length payload" post] pre ty crcb
    by (simp add: length_be32)
  have 4: "slice_nat ?buf (pos + 4) (pos + 8) = ty"
    using slice_mid [of "pre @ be32 (length payload)" "pos + 4" "pos + 8" ty
                        "payload @ crcb @ post"] pre ty
    by (simp add: length_be32)
  have 5: "slice_nat ?buf (pos + 8) (pos + 8 + length payload) = payload"
    using slice_mid [of "pre @ be32 (length payload) @ ty" "pos + 8" "pos + 8 + length payload"
                        payload "crcb @ post"] pre ty
    by (simp add: length_be32)
  have 6: "pos + 8 + length payload + 4 = pos + 12 + length payload"
    by simp
  show ?thesis
    by (subst parse_loop.simps) (simp only: 1 2 3 4 5 6 if_True sum.case)
qed


lemma getUint32_slice:
  "p + 4 \<le> length buf \<Longrightarrow> getUint32 buf p = Inr (uint32_of (slice_nat buf p (p + 4)))"
  by (simp add: getUint32_def uint32_of_def slice_nat_def)

lemma parse_loop_end: "length buf \<le> pos \<Longrightarrow> parse_loop buf pos cs = Inr cs"
  by (subst parse_loop.simps) simp

lemma fourCC_IHDR: "utf8Decode (ascii ''IHDR'') = Text ''IHDR''"
  by (simp add: utf8Decode_def ascii_def char_of_eq_iff)

lemma fourCC_IDAT: "utf8Decode (ascii ''IDAT'') = Text ''IDAT''"
  by (simp add: utf8Decode_def ascii_def char_of_eq_iff)

lemma fourCC_IEND: "utf8Decode (ascii ''IEND'') = Text ''IEND''"
  by (simp add: utf8Decode_def ascii_def char_of_eq_iff)

lemma length_ascii: "length (ascii s) = length s"
  by (simp add: ascii_def)

text \<open>
  C9. A buffer made of 8 signature bytes, a chunk \<open>IHDR\<close> with 13 bytes of payload,
  a chunk \<open>IDAT\<close> with a payload of any length that a length field can hold and a
  chunk \<open>IEND\<close> without payload parses into exactly these three chunks in file
  order, with their payloads, offsets and CRC values; the header chunk carries
  \<open>widthPixels\<close> and \<open>heightPixels\<close>, the big-endian values of the bytes 16 to 19
  and 20 to 23 of the buffer.
\<close>

theorem parseChunks_three_chunks:
  assumes sg: "length signature = 8" and ih: "length ihdr = 13" and idl: "length idat < 2 ^ 32"
    and c1: "length crc1 = 4" and c2: "length crc2 = 4" and c3: "length crc3 = 4"
  shows "let buffer = signature @ chunk_bytes ''IHDR'' ihdr crc1 @ chunk_bytes ''IDAT'' idat crc2
                        @ chunk_bytes ''IEND'' [] crc3
         in parseChunks buffer =
              Inr [\<lparr>fourCC = Text ''IHDR'', chunk_size = 13, chunk_data = ihdr, offset = 16,
                     crc = uint32_of crc1,
                     chunkInfo = Some \<lparr>widthPixels = uint32_of (slice_nat buffer 16 20),
                                       heightPixels = uint32_of (slice_nat buffer 20 24)\<rparr>\<rparr>,
                   \<lparr>fourCC = Text ''IDAT'', chunk_size = length idat, chunk_data = idat,
                     offset = 41, crc = uint32_of crc2, chunkInfo = None\<rparr>,
                   \<lparr>fourCC = Text ''IEND'', chunk_size = 0, chunk_data = [],
                     offset = 53 + length idat, crc = uint32_of crc3, chunkInfo = None\<rparr>]"
proof -
  define buffer where "buffer = signature @ chunk_bytes ''IHDR'' ihdr crc1
     @ chunk_bytes ''IDAT'' idat crc2 @ chunk_bytes ''IEND'' [] crc3"
  define rest1 where "rest1 = chunk_bytes ''IDAT'' idat crc2 @ chunk_bytes ''IEND'' [] crc3"
  define pre2 where "pre2 = signature @ chunk_bytes ''IHDR'' ihdr crc1"
  define pre3 where "pre3 = pre2 @ chunk_bytes ''IDAT'' idat crc2"
  have b1: "buffer = signature @ be32 (length ihdr) @ ascii ''IHDR'' @ ihdr @ crc1 @ rest1"
    by (simp add: buffer_def rest1_def chunk_bytes_def)
  have b2: "buffer = pre2 @ be32 (length idat) @ ascii ''IDAT'' @ idat @ crc2
              @ chunk_bytes ''IEND'' [] crc3"
    by (simp add: buffer_def pre2_def chunk_bytes_def)
  have b3: "buffer = pre3 @ be32 (length ([] :: byte list)) @ ascii ''IEND'' @ [] @ crc3 @ []"
    by (simp add: buffer_def pre3_def pre2_def chunk_bytes_def)
  have l2: "length pre2 = 33"
    using sg ih c1 by (simp add: pre2_def chunk_bytes_def length_be32 length_ascii)
  have l3: "length pre3 = 45 + length idat"
    using l2 c2 by (simp add: pre3_def chunk_bytes_def length_be32 length_ascii)
  have lb: "length buffer = 57 + length idat"
    using l3 c3 by (simp add: b3 length_be32 length_ascii)
  have w: "getUint32 buffer 16 = Inr (uint32_of (slice_nat buffer 16 20))"
    using getUint32_slice [of 16 buffer] lb by simp
  have h: "getUint32 buffer 20 = Inr (uint32_of (slice_nat buffer 20 24))"
    using getUint32_slice [of 20 buffer] lb by simp
  note e1 = parse_loop_chunk [of signature 8 "ascii ''IHDR''" ihdr crc1 rest1 "[]", folded b1]
  note e2 = parse_loop_chunk [of pre2 33 "ascii ''IDAT''" idat crc2
              "chunk_bytes ''IEND'' [] crc3", folded b2]
  note e3 = parse_loop_chunk [of pre3 "45 + length idat" "ascii ''IEND''" "[]" crc3 "[]",
              folded b3]
  have s1: "parse_loop buffer 8 [] = parse_loop buffer 33
      [\<lparr>fourCC = Text ''IHDR'', chunk_size = 13, chunk_data = ihdr, offset = 16,
        crc = uint32_of crc1,
        chunkInfo = Some \<lparr>widthPixels = uint32_of (slice_nat buffer 16 20),
                          heightPixels = uint32_of (slice_nat buffer 20 24)\<rparr>\<rparr>]"
    using e1 sg ih c1 by (simp add: length_ascii fourCC_IHDR w h)
  have s2: "parse_loop buffer 33 cs = parse_loop buffer (45 + length idat)
      (cs @ [\<lparr>fourCC = Text ''IDAT'', chunk_size = length idat, chunk_data = idat,
               offset = 41, crc = uint32_of crc2, chunkInfo = None\<rparr>])" for cs
    using e2 [of cs] l2 idl c2 by (simp add: length_ascii fourCC_IDAT)
  have s3: "parse_loop buffer (45 + length idat) cs = parse_loop buffer (57 + length idat)
      (cs @ [\<lparr>fourCC = Text ''IEND'', chunk_size = 0, chunk_data = [],
               offset = 53 + length idat, crc = uint32_of crc3, chunkInfo = None\<rparr>])" for cs
    using e3 [of cs] l3 c3 by (simp add: length_ascii fourCC_IEND)
  have "parseChunks buffer =
      Inr [\<lparr>fourCC = Text ''IHDR'', chunk_size = 13, chunk_data = ihdr, offset = 16,
             crc = uint32_of crc1,
             chunkInfo = Some \<lparr>widthPixels = uint32_of (slice_nat buffer 16 20),
                               heightPixels = uint32_of (slice_nat buffer 20 24)\<rparr>\<rparr>,
           \<lparr>fourCC = Text ''IDAT'', chunk_size = length idat, chunk_data = idat,
             offset = 41, crc = uint32_of crc2, chunkInfo = None\<rparr>,
           \<lparr>fourCC = Text ''IEND'', chunk_size = 0, chunk_data = [],
             offset = 53 + length idat, crc = uint32_of crc3, chunkInfo = None\<rparr>]"
    unfolding parseChunks_def s1 s2 s3 using lb by (simp add: parse_loop_end)
  then show ?thesis
    by (simp add: buffer_def Let_def)
qed

theorem parseChunks_three_chunks_witness:
  "parseChunks ([137, 80, 78, 71, 13, 10, 26, 10]
                @ chunk_bytes ''IHDR'' [0, 0, 0, 2, 0, 0, 0, 1, 8, 6, 0, 0, 0] [1, 2, 3, 4]
                @ chunk_bytes ''IDAT'' [120, 156, 99] [5, 6, 7, 8]
                @ chunk_bytes ''IEND'' [] [174, 66, 96, 130])
     = Inr [\<lparr>fourCC = Text ''IHDR'', chunk_size = 13,
              chunk_data = [0, 0, 0, 2, 0, 0, 0, 1, 8, 6, 0, 0, 0], offset = 16,
              crc = 16909060, chunkInfo = Some \<lparr>widthPixels = 2, heightPixels = 1\<rparr>\<rparr>,
            \<lparr>fourCC = Text ''IDAT'', chunk_size = 3, chunk_data = [120, 156, 99],
              offset = 41, crc = 84281096, chunkInfo = None\<rparr>,
            \<lparr>fourCC = Text ''IEND'', chunk_size = 0, chunk_data = [],
              offset = 56, crc = 2923585666, chunkInfo = None\<rparr>]"
  using parseChunks_three_chunks [of "[137, 80, 78, 71, 13, 10, 26, 10]"
      "[0, 0, 0, 2, 0, 0, 0, 1, 8, 6, 0, 0, 0]" "[120, 156, 99]" "[1, 2, 3, 4]" "[5, 6, 7, 8]"
      "[174, 66, 96, 130]"]
  by (simp add: Let_def uint32_of_def slice_nat_def chunk_bytes_def be32_def ascii_def)

subsection \<open>Where the width comes from\<close>

lemma parseChunks_text_first:
  "parseChunks [137, 80, 78, 71, 13, 10, 26, 10, 0, 0, 0, 0, 116, 69, 88, 116, 0, 0, 0, 1,
                0, 0, 0, 13, 73, 72, 68, 82, 0, 0, 0, 1, 0, 0, 0, 2, 8, 6, 0, 0, 0, 9, 9, 9, 9]
     = Inr text_first_chunks"
  by (simp add: parseChunks_def parse_loop.simps getUint32_def utf8Decode_def slice_nat_def
        char_of_eq_iff text_first_chunks_def)

text \<open>
  C10, as stated: the result depends on the stream and the width alone, the width
  being a parameter. The method has the stream as its only parameter and takes the
  width from the first chunk stored in the object. The same stream gives two rows on
  an object whose header chunk says width 1 and one row on an object whose header
  chunk says width 2; and on an object whose chunk list starts with a text chunk, the
  header chunk that says width 1 coming second, the call throws.
\<close>

theorem reverseFiltering_reads_object_state:
  "reverseFiltering (png_of 1 2) [0, 1, 2, 3, 4, 0, 5, 6, 7]
     = Inr [[FilterByte 0, Pixel [Num 1, Num 2, Num 3, Num 4]],
            [FilterByte 0, Pixel [Num 5, Num 6, Num 7]]]
   \<and> reverseFiltering (png_of 2 1) [0, 1, 2, 3, 4, 0, 5, 6, 7]
     = Inr [[FilterByte 0, Pixel [Num 1, Num 2, Num 3, Num 4], Pixel [Num 0, Num 5, Num 6, Num 7]]]
   \<and> reverseFiltering \<lparr>data = Some text_first_chunks\<rparr> [0, 1, 2, 3, 4, 0, 5, 6, 7]
     = Inl TypeError"
proof -
  have "reverseFiltering \<lparr>data = Some text_first_chunks\<rparr> [0, 1, 2, 3, 4, 0, 5, 6, 7]
      = Inl TypeError"
    by (simp add: reverseFiltering_def text_first_chunks_def)
  moreover have "reverseFiltering (png_of 1 2) [0, 1, 2, 3, 4, 0, 5, 6, 7]
     = Inr [[FilterByte 0, Pixel [Num 1, Num 2, Num 3, Num 4]],
            [FilterByte 0, Pixel [Num 5, Num 6, Num 7]]]"
    by (simp only: rf_png_of, code_simp)
  moreover have "reverseFiltering (png_of 2 1) [0, 1, 2, 3, 4, 0, 5, 6, 7]
     = Inr [[FilterByte 0, Pixel [Num 1, Num 2, Num 3, Num 4], Pixel [Num 0, Num 5, Num 6, Num 7]]]"
    by (simp only: rf_png_of, code_simp)
  ultimately show ?thesis
    by (simp only: simp_thms)
qed

text \<open>
  C10, amended: the result is a function of the stream and of the field
  \<open>widthPixels\<close> of \<open>this.data[0].chunkInfo\<close>. Two calls with the same stream on
  objects whose first chunks carry the same \<open>widthPixels\<close> give the same result,
  whatever else the two objects hold.
\<close>

theorem reverseFiltering_width_of_first_chunk:
  assumes "data this1 = Some (c1 # cs1)" and "data this2 = Some (c2 # cs2)"
    and "chunkInfo c1 = Some info1" and "chunkInfo c2 = Some info2"
    and "widthPixels info1 = widthPixels info2"
  shows "reverseFiltering this1 arrayBuffer = reverseFiltering this2 arrayBuffer"
  using assms by (simp add: reverseFiltering_def)

theorem reverseFiltering_width_of_first_chunk_witness:
  "reverseFiltering \<lparr>data = Some [ihdr_chunk 1 2]\<rparr> [0, 1, 2, 3, 4, 4, 5, 6, 7, 8]
     = reverseFiltering \<lparr>data = Some (ihdr_chunk 1 7 # text_first_chunks)\<rparr>
         [0, 1, 2, 3, 4, 4, 5, 6, 7, 8]"
  using reverseFiltering_width_of_first_chunk
    [of "\<lparr>data = Some [ihdr_chunk 1 2]\<rparr>" "ihdr_chunk 1 2" "[]"
        "\<lparr>data = Some (ihdr_chunk 1 7 # text_first_chunks)\<rparr>" "ihdr_chunk 1 7" text_first_chunks
        "\<lparr>widthPixels = 1, heightPixels = 2\<rparr>" "\<lparr>widthPixels = 1, heightPixels = 7\<rparr>"
        "[0, 1, 2, 3, 4, 4, 5, 6, 7, 8]"]
  by (simp add: ihdr_chunk_def)

subsection \<open>Streams without filtered lines\<close>

lemma pieces_Nil [simp]: "pieces n [] = []"
  by (simp add: pieces.simps)

lemma pieces_Cons: "0 < n \<Longrightarrow> xs \<noteq> [] \<Longrightarrow> pieces n xs = take n xs # pieces n (drop n xs)"
  by (subst pieces.simps) simp

lemma rf_loop_end: "length arr \<le> i \<Longrightarrow> rf_loop wb arr i st = Inr (res st)"
  by (subst rf_loop.simps) simp

lemma rf_step_mid:
  assumes "i < length arr" "i mod wb \<noteq> 0" "i \<noteq> 0" "filterByte st = 0"
    "res st = D @ [cur]" "cur \<noteq> []" "lineNum st = int (length D)"
  shows "rf_loop wb arr i st =
     rf_loop wb arr (i + 4)
       (st\<lparr>res := D @ [cur @ [plain_pixel (slice_nat arr i (i + 4))]],
           pixelCount := pixelCount st + 1\<rparr>)"
proof -
  obtain e es where cur: "cur = e # es"
    using assms(6) by (cases cur) auto
  have n: "rf_next_i wb i = i"
    using assms(2,3) by (simp add: rf_next_i_def)
  have l: "rf_line wb arr i st = st"
    using assms(2,3,5,7) by (simp add: rf_line_def arr_get_def cur)
  have s: "rf_switch wb i (map Num (slice_nat arr i (i + 4))) st =
      Inr (st\<lparr>res := D @ [cur @ [plain_pixel (slice_nat arr i (i + 4))]]\<rparr>)"
    using assms(4,5,7) by (simp add: rf_switch_def rf_none_def push_def arr_get_def plain_pixel_def)
  show ?thesis
    using assms(1) by (subst rf_loop.simps) (simp add: n l s)
qed

lemma rf_line_start:
  assumes "i mod wb = 0" "arr ! i = 0"
    "(res st = [[]] \<and> lineNum st = -1 \<and> D = []) \<or>
     (res st = D \<and> D \<noteq> [] \<and> lineNum st = int (length D) - 1)"
  shows "rf_line wb arr i st =
     \<lparr>filterByte = 0, res = D @ [[FilterByte 0]], lineNum = int (length D),
      tempArr = Some (plain_pixel (slice_nat arr (i + 1) (i + 5))), pixelCount = 0\<rparr>"
proof (cases st)
  case (fields fb r l t p)
  from assms(3) show ?thesis
  proof
    assume "res st = [[]] \<and> lineNum st = -1 \<and> D = []"
    then show ?thesis
      using assms(1,2) fields
      by (simp add: rf_line_def rf_next_i_def arr_get_def arr_set_def plain_pixel_def add.commute)
  next
    assume "res st = D \<and> D \<noteq> [] \<and> lineNum st = int (length D) - 1"
    then show ?thesis
      using assms(1,2) fields
      by (simp add: rf_line_def rf_next_i_def arr_get_def arr_set_def plain_pixel_def add.commute)
  qed
qed

lemma rf_step_start:
  assumes "i < length arr" "i mod wb = 0" "arr ! i = 0"
    "(res st = [[]] \<and> lineNum st = -1 \<and> D = []) \<or>
     (res st = D \<and> D \<noteq> [] \<and> lineNum st = int (length D) - 1)"
  shows "rf_loop wb arr i st =
     rf_loop wb arr (i + 5)
       \<lparr>filterByte = 0,
        res = D @ [[FilterByte 0, plain_pixel (slice_nat arr (i + 1) (i + 5))]],
        lineNum = int (length D),
        tempArr = Some (plain_pixel (slice_nat arr (i + 1) (i + 5))),
        pixelCount = 1\<rparr>"
proof -
  have n: "rf_next_i wb i = i + 1"
    using assms(2) by (simp add: rf_next_i_def)
  have s: "rf_switch wb (i + 1) (map Num (slice_nat arr (i + 1) (i + 5)))
             \<lparr>filterByte = 0, res = D @ [[FilterByte 0]], lineNum = int (length D),
              tempArr = Some (plain_pixel (slice_nat arr (i + 1) (i + 5))), pixelCount = 0\<rparr> =
      Inr \<lparr>filterByte = 0,
           res = D @ [[FilterByte 0, plain_pixel (slice_nat arr (i + 1) (i + 5))]],
           lineNum = int (length D),
           tempArr = Some (plain_pixel (slice_nat arr (i + 1) (i + 5))), pixelCount = 0\<rparr>"
    by (simp add: rf_switch_def rf_none_def push_def arr_get_def plain_pixel_def add.commute)
  have e: "i + 1 + 4 = i + 5"
    by simp
  show ?thesis
    using assms(1)
    by (subst rf_loop.simps) (simp only: n rf_line_start [OF assms(2,3,4)] s e if_True sum.case
          rf_state.simps add_0)
qed


lemma slice_nat_empty: "length arr \<le> i \<or> j \<le> i \<Longrightarrow> slice_nat arr i j = []"
  by (auto simp add: slice_nat_def)

lemma slice_nat_nonempty: "i < length arr \<Longrightarrow> i < j \<Longrightarrow> slice_nat arr i j \<noteq> []"
  by (simp add: slice_nat_def)

lemma take_slice_nat: "i + n \<le> j \<Longrightarrow> take n (slice_nat arr i j) = slice_nat arr i (i + n)"
  by (simp add: slice_nat_def min_def)

lemma drop_slice_nat: "drop n (slice_nat arr i j) = slice_nat arr (i + n) j"
  by (simp add: slice_nat_def drop_take add.commute)

lemma pieces_slice_nat:
  assumes "i < length arr" "i + 4 \<le> j"
  shows "pieces 4 (slice_nat arr i j) = slice_nat arr i (i + 4) # pieces 4 (slice_nat arr (i + 4) j)"
proof -
  have "slice_nat arr i j \<noteq> []"
    using assms by (simp add: slice_nat_nonempty)
  then show ?thesis
    using assms by (simp add: pieces_Cons take_slice_nat drop_slice_nat)
qed

lemma rf_run:
  assumes "wb = 4 * w + 1" "s mod wb = 0" "filterByte st = 0" "res st = D @ [cur]" "cur \<noteq> []"
    "lineNum st = int (length D)" "i = s + 1 + 4 * m" "1 \<le> m" "m \<le> w"
  shows "\<exists>pc. rf_loop wb arr i st =
           rf_loop wb arr (s + wb)
             (st\<lparr>res := D @ [cur @ map plain_pixel (pieces 4 (slice_nat arr i (s + wb)))],
                 pixelCount := pc\<rparr>)"
  using assms
proof (induction "w - m" arbitrary: m i st cur)
  case 0
  then have i: "i = s + wb"
    by simp
  have "st\<lparr>res := D @ [cur], pixelCount := pixelCount st\<rparr> = st"
    using "0.prems"(4) by (cases st) simp
  then show ?case
    unfolding i by (intro exI [of _ "pixelCount st"]) (simp add: slice_nat_empty)
next
  case (Suc n)
  then have m: "m < w" and n: "n = w - (m + 1)"
    by simp_all
  show ?case
  proof (cases "i < length arr")
    case True
    obtain k where k: "s = wb * k"
      using Suc.prems(2) by (auto simp add: mod_eq_0_iff_dvd)
    have "i = wb * k + (1 + 4 * m)"
      using Suc.prems(7) k by simp
    then have "i mod wb = (1 + 4 * m) mod wb"
      by (simp only: mod_mult_self4)
    then have nz: "i mod wb \<noteq> 0" "i \<noteq> 0"
      using Suc.prems(1,7) m by simp_all
    let ?p = "plain_pixel (slice_nat arr i (i + 4))"
    let ?st = "st\<lparr>res := D @ [cur @ [?p]], pixelCount := pixelCount st + 1\<rparr>"
    have step: "rf_loop wb arr i st = rf_loop wb arr (i + 4) ?st"
      using rf_step_mid [OF True nz Suc.prems(3,4,5,6)] .
    have "\<exists>pc. rf_loop wb arr (i + 4) ?st =
            rf_loop wb arr (s + wb)
              (?st\<lparr>res := D @ [(cur @ [?p]) @
                                  map plain_pixel (pieces 4 (slice_nat arr (i + 4) (s + wb)))],
                    pixelCount := pc\<rparr>)"
      using Suc.prems m
      by (intro Suc.hyps(1) [OF n]) simp_all
    moreover have "pieces 4 (slice_nat arr i (s + wb)) =
        slice_nat arr i (i + 4) # pieces 4 (slice_nat arr (i + 4) (s + wb))"
      using True Suc.prems(1,7) m by (intro pieces_slice_nat) simp_all
    ultimately show ?thesis
      by (simp add: step)
  next
    case False
    then show ?thesis
      using Suc.prems(1,4,7) m by (simp add: rf_loop_end slice_nat_empty)
  qed
qed


lemma plain_row_line:
  assumes "i < length arr" "5 \<le> wb"
  shows "plain_row (take wb (drop i arr)) =
     [FilterByte (arr ! i), plain_pixel (slice_nat arr (i + 1) (i + 5))] @
       map plain_pixel (pieces 4 (slice_nat arr (i + 5) (i + wb)))"
proof -
  have d: "drop i arr = arr ! i # drop (Suc i) arr"
    using assms(1) by (simp add: Cons_nth_drop_Suc)
  obtain v where wb: "wb = Suc v"
    using assms(2) by (cases wb) auto
  have t: "take wb (drop i arr) = arr ! i # slice_nat arr (i + 1) (i + wb)"
    by (simp add: d wb slice_nat_def)
  show ?thesis
  proof (cases "i + 1 < length arr")
    case True
    then have "slice_nat arr (i + 1) (i + wb) \<noteq> []"
      using assms(2) by (intro slice_nat_nonempty) simp_all
    moreover have "pieces 4 (slice_nat arr (i + 1) (i + wb)) =
        slice_nat arr (i + 1) (i + 1 + 4) # pieces 4 (slice_nat arr (i + 1 + 4) (i + wb))"
      using True assms(2) by (intro pieces_slice_nat) simp_all
    ultimately show ?thesis
      by (simp add: t add.commute)
  next
    case False
    then show ?thesis
      by (simp add: t slice_nat_empty)
  qed
qed

lemma rf_lines:
  assumes wb: "wb = 4 * w + 1" and w: "0 < w"
    and zero: "\<forall>k. k * wb < length arr \<longrightarrow> arr ! (k * wb) = 0"
    and i: "i mod wb = 0"
    and st: "(res st = [[]] \<and> lineNum st = -1 \<and> D = []) \<or>
             (res st = D \<and> D \<noteq> [] \<and> lineNum st = int (length D) - 1)"
  shows "rf_loop wb arr i st =
     Inr (if i < length arr then D @ map plain_row (pieces wb (drop i arr)) else res st)"
  using i st
proof (induction "length arr - i" arbitrary: i st D rule: less_induct)
  case less
  show ?case
  proof (cases "i < length arr")
    case False
    then show ?thesis
      by (simp add: rf_loop_end)
  next
    case True
    have k: "i = (i div wb) * wb"
      using less.prems(1) div_mult_mod_eq [of i wb] by simp
    have z: "arr ! i = 0"
      using zero [rule_format, of "i div wb"] True k by simp
    let ?p = "plain_pixel (slice_nat arr (i + 1) (i + 5))"
    let ?st1 = "\<lparr>filterByte = 0, res = D @ [[FilterByte 0, ?p]], lineNum = int (length D),
                 tempArr = Some ?p, pixelCount = 1\<rparr>"
    let ?row = "[FilterByte 0, ?p] @ map plain_pixel (pieces 4 (slice_nat arr (i + 5) (i + wb)))"
    have s1: "rf_loop wb arr i st = rf_loop wb arr (i + 5) ?st1"
      using rf_step_start [OF True less.prems(1) z less.prems(2)] .
    obtain pc where s2: "rf_loop wb arr (i + 5) ?st1 =
        rf_loop wb arr (i + wb) (?st1\<lparr>res := D @ [?row], pixelCount := pc\<rparr>)"
      using rf_run [of wb w i ?st1 D "[FilterByte 0, ?p]" "i + 5" 1 arr] wb w less.prems(1)
      by auto
    let ?st2 = "?st1\<lparr>res := D @ [?row], pixelCount := pc\<rparr>"
    have m: "(i + wb) mod wb = 0"
      using less.prems(1) by simp
    have d: "length arr - (i + wb) < length arr - i"
      using True wb by simp
    have s3: "rf_loop wb arr (i + wb) ?st2 =
        Inr (if i + wb < length arr
             then (D @ [?row]) @ map plain_row (pieces wb (drop (i + wb) arr))
             else res ?st2)"
      using less.hyps [OF d m, of ?st2 "D @ [?row]"] by simp
    have r: "plain_row (take wb (drop i arr)) = ?row"
      using plain_row_line [OF True, of wb] wb w z by simp
    have p: "pieces wb (drop i arr) = take wb (drop i arr) # pieces wb (drop (i + wb) arr)"
      using True wb by (simp add: pieces_Cons add.commute)
    have e: "(if i + wb < length arr
              then (D @ [?row]) @ map plain_row (pieces wb (drop (i + wb) arr))
              else res ?st2) = D @ map plain_row (pieces wb (drop i arr))"
      by (simp add: p r)
    show ?thesis
      unfolding s1 s2 s3 e using True by simp
  qed
qed

lemma rf_loop_plain:
  assumes "0 < w" "\<forall>k. k * (4 * w + 1) < length arr \<longrightarrow> arr ! (k * (4 * w + 1)) = 0"
  shows "rf_loop (4 * w + 1) arr 0 rf_init = Inr (plain_rows (4 * w + 1) arr)"
  using rf_lines [of "4 * w + 1" w arr 0 rf_init "[]"] assms
  by (simp add: rf_init_def plain_rows_def)

lemma pieces_concat:
  assumes "0 < n" "\<forall>x \<in> set xss. length x = n"
  shows "pieces n (concat xss) = xss"
  using assms(2)
proof (induction xss)
  case Nil
  then show ?case by simp
next
  case (Cons x xss)
  then have "x \<noteq> []"
    using assms(1) by auto
  then show ?case
    using Cons assms(1) by (simp add: pieces_Cons)
qed

lemma length_concat_uniform:
  "\<forall>x \<in> set xss. length x = n \<Longrightarrow> length (concat xss) = length xss * n"
  by (induction xss) simp_all

lemma nth_concat_uniform:
  assumes "\<forall>x \<in> set xss. length x = n" "k < length xss" "0 < n"
  shows "concat xss ! (k * n) = hd (xss ! k)"
  using assms(1,2)
proof (induction xss arbitrary: k)
  case Nil
  then show ?case by simp
next
  case (Cons x xss)
  show ?case
  proof (cases k)
    case 0
    then show ?thesis
      using Cons.prems assms(3) by (cases x) (auto simp add: nth_append)
  next
    case (Suc j)
    then show ?thesis
      using Cons assms(3) by (simp add: nth_append)
  qed
qed

lemma plain_row_unfiltered:
  assumes "0 < length px" "\<forall>p \<in> set px. length p = 4"
  shows "plain_row (0 # concat px) = FilterByte 0 # map plain_pixel px"
proof -
  have "concat px \<noteq> []"
    using assms by (cases px) auto
  then have "plain_row (0 # concat px) = FilterByte 0 # map plain_pixel (pieces 4 (concat px))"
    by (simp only: plain_row.simps if_False)
  then show ?thesis
    using assms(2) by (simp add: pieces_concat)
qed

lemma map_unat_unfiltered_stream:
  "map unat (unfiltered_stream pixelRows) =
     concat (map (\<lambda>line. 0 # concat (map (map unat) line)) pixelRows)"
  by (simp add: unfiltered_stream_def unfiltered_line_def map_concat comp_def)

text \<open>
  C6, as stated: with filter type 0 on every line, each row of the result is the
  pixels of the line and nothing else, as many elements as the image is wide. For
  width 1 the row has two elements, the first being the filter byte.
\<close>

theorem reverseFiltering_row_starts_with_filter_byte:
  "reverseFiltering (png_of 1 1) [0, 1, 2, 3, 4]
     = Inr [[FilterByte 0, Pixel [Num 1, Num 2, Num 3, Num 4]]]
   \<and> length [FilterByte 0, Pixel [Num 1, Num 2, Num 3, Num 4]] = 2"
  by (simp only: rf_png_of, code_simp)

text \<open>
  C6, amended: for an image of at least one row, \<open>w > 0\<close> pixels of 4 bytes in each
  row, the call on the stream that holds each row after a filter byte 0 returns one
  row per line: the filter byte 0 first, then the \<open>w\<close> pixels of the line unchanged.
  Every row so has \<open>w + 1\<close> elements.
\<close>

theorem reverseFiltering_type0_rows:
  assumes obj: "data this = Some (c0 # cs)" "chunkInfo c0 = Some info"
    and w: "widthPixels info = w" "0 < w"
    and rows: "pixelRows \<noteq> []" "\<forall>line \<in> set pixelRows. length line = w"
      "\<forall>line \<in> set pixelRows. \<forall>p \<in> set line. length p = 4"
  shows "reverseFiltering this (unfiltered_stream pixelRows) =
           Inr (map (\<lambda>line. FilterByte 0 # map (\<lambda>p. Pixel (map (\<lambda>b. Num (unat b)) p)) line)
                  pixelRows)
         \<and> (\<forall>line \<in> set pixelRows.
              length (FilterByte 0 # map (\<lambda>p. Pixel (map (\<lambda>b. Num (unat b)) p)) line) = w + 1)"
proof -
  let ?wb = "4 * w + 1"
  let ?lines = "map (\<lambda>line. 0 # concat (map (map unat) line)) pixelRows"
  have len: "\<forall>l \<in> set ?lines. length l = ?wb"
  proof
    fix l assume "l \<in> set ?lines"
    then obtain line where line: "line \<in> set pixelRows" "l = 0 # concat (map (map unat) line)"
      by auto
    have "length (concat (map (map unat) line)) = length (map (map unat) line) * 4"
      using rows(3) line(1) by (intro length_concat_uniform) auto
    then show "length l = ?wb"
      using rows(2) line by simp
  qed
  have arr: "map unat (unfiltered_stream pixelRows) = concat ?lines"
    by (rule map_unat_unfiltered_stream)
  have zero: "\<forall>k. k * ?wb < length (concat ?lines) \<longrightarrow> concat ?lines ! (k * ?wb) = 0"
  proof (intro allI impI)
    fix k assume "k * ?wb < length (concat ?lines)"
    then have "k * ?wb < length ?lines * ?wb"
      by (simp only: length_concat_uniform [OF len])
    then have k: "k < length ?lines"
      by (simp only: mult_less_cancel2)
    have "concat ?lines ! (k * ?wb) = hd (?lines ! k)"
      using len k by (intro nth_concat_uniform) simp_all
    then show "concat ?lines ! (k * ?wb) = 0"
      using k by simp
  qed
  have ne: "concat ?lines \<noteq> []"
    using rows(1) by (cases pixelRows) simp_all
  have row: "plain_row (0 # concat (map (map unat) line)) =
               FilterByte 0 # map (\<lambda>p. Pixel (map (\<lambda>b. Num (unat b)) p)) line"
    if "line \<in> set pixelRows" for line
    using plain_row_unfiltered [of "map (map unat) line"] that rows(2,3) w(2)
    by (simp add: plain_pixel_def comp_def)
  have "rf_loop ?wb (concat ?lines) 0 rf_init = Inr (plain_rows ?wb (concat ?lines))"
    using w(2) zero by (rule rf_loop_plain)
  also have "plain_rows ?wb (concat ?lines) = map plain_row ?lines"
  proof -
    have "pieces ?wb (concat ?lines) = ?lines"
      using len by (intro pieces_concat) simp_all
    then show ?thesis
      using ne by (simp only: plain_rows_def if_False)
  qed
  also have "map plain_row ?lines =
      map (\<lambda>line. FilterByte 0 # map (\<lambda>p. Pixel (map (\<lambda>b. Num (unat b)) p)) line) pixelRows"
    using row by (simp add: comp_def)
  finally have "reverseFiltering this (unfiltered_stream pixelRows) =
      Inr (map (\<lambda>line. FilterByte 0 # map (\<lambda>p. Pixel (map (\<lambda>b. Num (unat b)) p)) line)
             pixelRows)"
    using obj w(1) by (simp add: reverseFiltering_def arr mult.commute)
  then show ?thesis
    using rows(2) by simp
qed

theorem reverseFiltering_type0_rows_witness:
  "reverseFiltering (png_of 2 2)
       [0, 1, 2, 3, 4, 5, 6, 7, 8, 0, 9, 10, 11, 12, 13, 14, 15, 16]
     = Inr [[FilterByte 0, Pixel [Num 1, Num 2, Num 3, Num 4], Pixel [Num 5, Num 6, Num 7, Num 8]],
            [FilterByte 0, Pixel [Num 9, Num 10, Num 11, Num 12],
             Pixel [Num 13, Num 14, Num 15, Num 16]]]"
  using reverseFiltering_type0_rows
    [of "png_of 2 2" "ihdr_chunk 2 2" "[]" "\<lparr>widthPixels = 2, heightPixels = 2\<rparr>" 2
        "[[[1, 2, 3, 4], [5, 6, 7, 8]], [[9, 10, 11, 12], [13, 14, 15, 16]]]"]
  by (simp add: png_of_def ihdr_chunk_def unfiltered_stream_def unfiltered_line_def)

text \<open>
  C7, as stated: a buffer shorter than \<open>height * (1 + width * 4)\<close> bytes makes the
  call fail. For a 1 by 2 image, 10 bytes are due; on the first 8 the call returns a
  grid whose second row has a pixel of two channels.
\<close>

theorem reverseFiltering_short_stream_returns:
  "reverseFiltering (png_of 1 2) [0, 1, 2, 3, 4, 0, 5, 6]
     = Inr [[FilterByte 0, Pixel [Num 1, Num 2, Num 3, Num 4]],
            [FilterByte 0, Pixel [Num 5, Num 6]]]
   \<and> length [0, 1, 2, 3, 4, 0, 5, 6 :: byte] < 2 * (1 + 1 * 4)"
  by (simp only: rf_png_of, code_simp)

text \<open>
  C7, amended: the length of the buffer is not checked and the height is not read.
  On a buffer shorter than \<open>height * (1 + width * 4)\<close> bytes whose lines have filter
  type 0, the call returns the rows built from the bytes that are there: one row per
  line begun, the last row and its last pixel cut short where the buffer ends.
\<close>

theorem reverseFiltering_short_stream:
  assumes obj: "data this = Some (c0 # cs)" "chunkInfo c0 = Some info"
    and w: "0 < widthPixels info"
    and zero: "\<forall>k. k * (widthPixels info * 4 + 1) < length arrayBuffer
                 \<longrightarrow> arrayBuffer ! (k * (widthPixels info * 4 + 1)) = 0"
    and short: "length arrayBuffer < heightPixels info * (1 + widthPixels info * 4)"
  shows "reverseFiltering this arrayBuffer =
           Inr (plain_rows (widthPixels info * 4 + 1) (map unat arrayBuffer))"
proof -
  have "rf_loop (4 * widthPixels info + 1) (map unat arrayBuffer) 0 rf_init =
      Inr (plain_rows (4 * widthPixels info + 1) (map unat arrayBuffer))"
    using w zero by (intro rf_loop_plain) (simp_all add: mult.commute)
  then show ?thesis
    using obj by (simp add: reverseFiltering_def mult.commute)
qed

theorem reverseFiltering_short_stream_witness:
  "reverseFiltering (png_of 1 2) [0, 1, 2, 3, 4, 0, 5, 6]
     = Inr [[FilterByte 0, Pixel [Num 1, Num 2, Num 3, Num 4]],
            [FilterByte 0, Pixel [Num 5, Num 6]]]"
proof -
  have z: "\<forall>k. k * (1 * 4 + 1) < length [0, 1, 2, 3, 4, 0, 5, 6 :: byte]
             \<longrightarrow> [0, 1, 2, 3, 4, 0, 5, 6 :: byte] ! (k * (1 * 4 + 1)) = 0"
  proof (intro allI impI)
    fix k :: nat
    assume "k * (1 * 4 + 1) < length [0, 1, 2, 3, 4, 0, 5, 6 :: byte]"
    then have "k = 0 \<or> k = 1"
      by auto
    then show "[0, 1, 2, 3, 4, 0, 5, 6 :: byte] ! (k * (1 * 4 + 1)) = 0"
      by auto
  qed
  have r: "plain_rows 5 (map unat [0, 1, 2, 3, 4, 0, 5, 6 :: byte])
     = [[FilterByte 0, Pixel [Num 1, Num 2, Num 3, Num 4]], [FilterByte 0, Pixel [Num 5, Num 6]]]"
    by code_simp
  show ?thesis
    using reverseFiltering_short_stream
      [of "png_of 1 2" "ihdr_chunk 1 2" "[]" "\<lparr>widthPixels = 1, heightPixels = 2\<rparr>"
          "[0, 1, 2, 3, 4, 0, 5, 6]"] z r
    by (simp add: png_of_def ihdr_chunk_def)
qed

subsection \<open>Streams with an unknown filter byte\<close>

text \<open>
  The positions that the loop visits do not depend on the bytes: every start of a
  line that lies in the buffer is reached unless an earlier iteration throws, and a
  line whose filter byte is above 4 ends the call in the default branch of the
  \<open>switch\<close>. So a stream with such a line never yields a grid; which exception ends
  the call depends on the lines before it (see C8 above).
\<close>

lemma filterByte_rf_line:
  "i mod wb = 0 \<Longrightarrow> filterByte (rf_line wb arr i st) = arr ! i"
  by (simp add: rf_line_def Let_def split: option.splits list.splits)

lemma rf_loop_bad_line:
  assumes "i < length arr" "i mod wb = 0" "4 < arr ! i"
  shows "rf_loop wb arr i st = Inl UnexpectedFilterByte"
proof -
  have "rf_switch wb i' p (rf_line wb arr i st) = Inl UnexpectedFilterByte" for i' p
    using assms(2,3) by (simp add: rf_switch_def filterByte_rf_line)
  then show ?thesis
    using assms(1) by (subst rf_loop.simps) simp
qed

lemma next_aligned:
  assumes wb: "wb = 4 * w + 1" "0 < w"
    and al: "i mod wb = 0 \<or> (i mod wb) mod 4 = 1"
    and t: "t mod wb = 0" "i < t"
  shows "((rf_next_i wb i + 4) mod wb = 0 \<or> ((rf_next_i wb i + 4) mod wb) mod 4 = 1)
         \<and> rf_next_i wb i + 4 \<le> t \<and> i < rf_next_i wb i + 4"
proof -
  define q r where "q = i div wb" and "r = i mod wb"
  have i: "i = q * wb + r"
    unfolding q_def r_def by simp
  have r: "r < wb"
    unfolding r_def using wb by simp
  obtain k where k: "t = k * wb"
    using t(1) by (metis div_mult_mod_eq add.right_neutral)
  have qk: "q < k"
  proof (rule ccontr)
    assume "\<not> q < k"
    then have "k * wb \<le> q * wb"
      by (intro mult_le_mono1) simp
    then show False using t(2) i k by linarith
  qed
  then have tq: "q * wb + wb \<le> t"
    using k by (metis Suc_leI mult_Suc mult_le_mono1 add.commute)
  have w5: "5 \<le> wb"
    using wb by simp
  show ?thesis
  proof (cases "r = 0")
    case True
    then have n: "rf_next_i wb i + 4 = q * wb + 5"
      unfolding rf_next_i_def r_def [symmetric] using i by simp
    have m: "(q * wb + 5) mod wb = 5 mod wb"
      by simp
    have a: "5 mod wb = 0 \<or> (5 mod wb) mod 4 = 1"
    proof (cases "wb = 5")
      case True
      then show ?thesis by simp
    next
      case False
      then have "5 < wb" using w5 by simp
      then show ?thesis by simp
    qed
    have "q * wb + 5 \<le> t"
      using tq w5 by linarith
    moreover have "i < q * wb + 5"
      using i True by simp
    ultimately show ?thesis
      unfolding n m using a by simp
  next
    case False
    then have r4: "r mod 4 = 1"
      using al by (simp add: r_def)
    have nz: "i \<noteq> 0"
    proof
      assume "i = 0"
      then have "r = 0" by (simp add: r_def)
      then show False using False by simp
    qed
    have n: "rf_next_i wb i + 4 = q * wb + (r + 4)"
      unfolding rf_next_i_def r_def [symmetric] using False nz i by simp
    have le: "r + 4 \<le> wb"
      using r r4 wb by presburger
    have m: "(q * wb + (r + 4)) mod wb = (r + 4) mod wb"
      by simp
    have a: "(r + 4) mod wb = 0 \<or> ((r + 4) mod wb) mod 4 = 1"
    proof (cases "r + 4 = wb")
      case True
      then show ?thesis by simp
    next
      case False
      then have "r + 4 < wb" using le by simp
      then show ?thesis using r4 by (simp add: mod_add_left_eq)
    qed
    have "q * wb + (r + 4) \<le> t"
      using tq le by linarith
    moreover have "i < q * wb + (r + 4)"
      using i by simp
    ultimately show ?thesis
      unfolding n m using a by simp
  qed
qed

lemma rf_loop_reaches_bad_line:
  assumes wb: "wb = 4 * w + 1" "0 < w"
    and t: "t mod wb = 0" "t < length arr" "4 < arr ! t"
    and al: "i mod wb = 0 \<or> (i mod wb) mod 4 = 1"
    and le: "i \<le> t"
  shows "\<exists>e. rf_loop wb arr i st = Inl e"
  using al le
proof (induction "t - i" arbitrary: i st rule: less_induct)
  case less
  show ?case
  proof (cases "i = t")
    case True
    then show ?thesis
      using rf_loop_bad_line [of t arr wb st] t by simp
  next
    case False
    then have lt: "i < t"
      using less.prems(2) by simp
    note nx = next_aligned [OF wb less.prems(1) t(1) lt]
    show ?thesis
    proof (cases "rf_switch wb (rf_next_i wb i)
                    (map Num (slice_nat arr (rf_next_i wb i) (rf_next_i wb i + 4)))
                    (rf_line wb arr i st)")
      case (Inl e)
      then show ?thesis
        using lt t(2) by (subst rf_loop.simps) simp
    next
      case (Inr st')
      have "\<exists>e. rf_loop wb arr (rf_next_i wb i + 4) (st'\<lparr>pixelCount := pixelCount st' + 1\<rparr>) = Inl e"
      proof (rule less.hyps)
        show "t - (rf_next_i wb i + 4) < t - i"
          using nx lt by linarith
        show "(rf_next_i wb i + 4) mod wb = 0 \<or> (rf_next_i wb i + 4) mod wb mod 4 = 1"
          using nx by simp
        show "rf_next_i wb i + 4 \<le> t"
          using nx by simp
      qed
      then show ?thesis
        using lt t(2) Inr by (subst rf_loop.simps) simp
    qed
  qed
qed

lemma reverseFiltering_bad_filter_byte_throws:
  assumes "data this = Some (c0 # cs)" "chunkInfo c0 = Some info" "0 < widthPixels info"
    and "k * (widthPixels info * 4 + 1) < length arrayBuffer"
    and "4 < arrayBuffer ! (k * (widthPixels info * 4 + 1))"
  shows "\<exists>e. reverseFiltering this arrayBuffer = Inl e"
proof -
  let ?wb = "4 * widthPixels info + 1"
  have "4 < unat (arrayBuffer ! (k * ?wb))"
    using assms(5) by (simp add: mult.commute word_less_nat_alt)
  moreover have "(k * ?wb) mod ?wb = 0"
    by (simp only: mod_mult_self2_is_0)
  moreover have "k * ?wb < length (map unat arrayBuffer)"
    using assms(4) by (simp add: mult.commute)
  moreover have "4 < map unat arrayBuffer ! (k * ?wb)"
    using assms(4,5) by (simp add: mult.commute word_less_nat_alt)
  ultimately have "\<exists>e. rf_loop ?wb (map unat arrayBuffer) 0 rf_init = Inl e"
    using assms(3)
    by (intro rf_loop_reaches_bad_line [of ?wb "widthPixels info" "k * ?wb"]) simp_all
  then show ?thesis
    using assms(1,2) by (simp add: reverseFiltering_def mult.commute)
qed

end
